theory Spec2Isabelle
  imports Main "HOL-Library.Sublist"
begin

section \<open>The User table and the store\<close>

text \<open>
  The commands of \<^verbatim>\<open>app/cli.py\<close> work on one table, \<^verbatim>\<open>User\<close>, through a
  SQLModel session. The entity class lives in \<^verbatim>\<open>app/models.py\<close> and the engine and
  session provider in \<^verbatim>\<open>app/database.py\<close>; the file at hand imports them. The
  constructor call \<^verbatim>\<open>User(username=..., email=..., password=...)\<close> fixes the three
  fields a caller gives; the key is given by the store.
\<close>

text \<open>
  Modelled from the spec: the entity \<^verbatim>\<open>User\<close> of \<^verbatim>\<open>app/models.py\<close>. An integer
  surrogate primary key assigned by the store on insert, a unique required username,
  a unique required email, and a password stored as given.
\<close>

record user =
  user_id :: int
  username :: string
  email :: string
  password :: string

text \<open>The table: its rows in the store's default row order (insertion order).\<close>

type_synonym store = "user list"

text \<open>
  The exceptions a command can meet. \<^verbatim>\<open>IntegrityError\<close> is the one the file
  imports from \<^verbatim>\<open>sqlalchemy.exc\<close>; \<open>DatabaseError\<close> stands for any other the
  database raises on a statement; \<open>OverflowError\<close> is Python's, raised by a driver
  that cannot bind an integer argument as a 64-bit value.
\<close>

datatype error = IntegrityError | DatabaseError | OverflowError

text \<open>
  What a command prints: a line of text, or \<^verbatim>\<open>print(user)\<close> of a row. A command ends
  with the lines it printed, or with the exception that left it (\<open>Inl\<close>), and with the
  store as later invocations find it.
\<close>

datatype line = Text string | Show user

type_synonym outcome = "(error + line list) \<times> store"

subsection \<open>The database behind the engine\<close>

text \<open>
  The connection string is set in \<^verbatim>\<open>app/database.py\<close>, so the database product is
  a parameter of the model. These points of the commands depend on it:

  \<^item> \<open>like_ci\<close>: whether \<^verbatim>\<open>LIKE\<close> folds the case of ASCII letters (SQLite does unless
    told otherwise; PostgreSQL does not);
  \<^item> \<open>like_backslash\<close>: whether a backslash in a \<^verbatim>\<open>LIKE\<close> pattern is the escape
    character when the statement names none (PostgreSQL and MySQL; not SQLite);
  \<^item> \<open>like_limited\<close>: whether \<^verbatim>\<open>LIKE\<close> refuses a pattern of more than 50000 bytes
    (SQLite, \<^verbatim>\<open>LIKE or GLOB pattern too complex\<close>);
  \<^item> \<open>int64_bind\<close>: whether the driver binds \<^verbatim>\<open>LIMIT\<close> and \<^verbatim>\<open>OFFSET\<close> as 64-bit
    integers and raises \<^verbatim>\<open>OverflowError\<close> for a Python integer outside that range
    (sqlite3); where it does not, the server refuses the value;
  \<^item> \<open>neg_window\<close>: what a negative \<^verbatim>\<open>LIMIT\<close> or \<^verbatim>\<open>OFFSET\<close> does (SQLite reads a
    negative limit as no limit and a negative offset as zero; PostgreSQL raises, which
    is \<open>None\<close> here).
\<close>

record backend =
  like_ci :: bool
  like_backslash :: bool
  like_limited :: bool
  int64_bind :: bool
  neg_window :: "int \<Rightarrow> int \<Rightarrow> user list \<Rightarrow> user list option"

definition sqlite :: backend where
  "sqlite = \<lparr>like_ci = True, like_backslash = False, like_limited = True, int64_bind = True,
     neg_window = (\<lambda>lim off t.
       let t' = (if off < 0 then t else drop (nat off) t)
       in Some (if lim < 0 then t' else take (nat lim) t'))\<rparr>"


definition postgresql :: backend where
  "postgresql = \<lparr>like_ci = False, like_backslash = True, like_limited = False, int64_bind = False,
     neg_window = (\<lambda>lim off t. None)\<rparr>"

subsection \<open>The session\<close>

text \<open>
  Modelled from the spec: the session provider \<^verbatim>\<open>get_session\<close> of
  \<^verbatim>\<open>app/database.py\<close>, a scoped handle to the store with explicit commit and
  rollback. Writes are staged in the session; a commit flushes them to the table in
  one transaction, and a write the table refuses raises and leaves the table as it
  was. Closing the handle drops whatever is staged and not committed.
\<close>

datatype db_write =
  Insert string string string
| Update int string
| Delete int

record session =
  table :: "user list"
  pending :: "db_write list"

definition get_session :: "store \<Rightarrow> session" where
  "get_session s = \<lparr>table = s, pending = []\<rparr>"

definition close :: "session \<Rightarrow> store" where
  "close db = table db"

definition stage :: "db_write \<Rightarrow> session \<Rightarrow> session" where
  "stage w db = db\<lparr>pending := pending db @ [w]\<rparr>"

text \<open>The key of the next row: one more than the largest key in use, 1 on an empty table.\<close>

definition fresh_id :: "user list \<Rightarrow> int" where
  "fresh_id t = foldr max (map user_id t) 0 + 1"

definition new_row :: "user list \<Rightarrow> string \<Rightarrow> string \<Rightarrow> string \<Rightarrow> user" where
  "new_row t u e p = \<lparr>user_id = fresh_id t, username = u, email = e, password = p\<rparr>"

text \<open>
  One statement against the table. The unique columns refuse an insert whose
  username or email some row has, and an update that gives a row the email of
  another row. Update and delete address the row by its primary key, as the ORM does.
\<close>

fun apply_write :: "db_write \<Rightarrow> user list \<Rightarrow> error + user list" where
  "apply_write (Insert u e p) t =
     (if \<exists>r \<in> set t. username r = u \<or> email r = e then Inl IntegrityError
      else Inr (t @ [new_row t u e p]))"
| "apply_write (Update i e) t =
     (if \<exists>r \<in> set t. user_id r \<noteq> i \<and> email r = e then Inl IntegrityError
      else Inr (map (\<lambda>r. if user_id r = i then r\<lparr>email := e\<rparr> else r) t))"
| "apply_write (Delete i) t = Inr (filter (\<lambda>r. user_id r \<noteq> i) t)"

fun flush :: "db_write list \<Rightarrow> user list \<Rightarrow> error + user list" where
  "flush [] t = Inr t"
| "flush (w # ws) t =
     (case apply_write w t of Inl e \<Rightarrow> Inl e | Inr t' \<Rightarrow> flush ws t')"

definition db_commit :: "session \<Rightarrow> (error + unit) \<times> session" where
  "db_commit db =
     (case flush (pending db) (table db) of
        Inl e \<Rightarrow> (Inl e, db)
      | Inr t \<Rightarrow> (Inr (), \<lparr>table = t, pending = []\<rparr>))"

definition db_rollback :: "session \<Rightarrow> session" where
  "db_rollback db = db\<lparr>pending := []\<rparr>"

text \<open>\<^verbatim>\<open>with get_session() as db:\<close> the handle is closed however the body ends.\<close>

definition with_session :: "(session \<Rightarrow> (error + line list) \<times> session) \<Rightarrow> store \<Rightarrow> outcome" where
  "with_session body s = (let (r, db) = body (get_session s) in (r, close db))"

text \<open>
  Modelled from the spec: \<^verbatim>\<open>drop_all\<close> and \<^verbatim>\<open>create_db_and_tables\<close> of
  \<^verbatim>\<open>app/database.py\<close>. The first drops all existing tables, and their rows with
  them; the second recreates the tables from the entity definitions, and creates
  nothing where the table stands.
\<close>

definition drop_all :: "session \<Rightarrow> session" where
  "drop_all db = db\<lparr>table := []\<rparr>"

definition create_db_and_tables :: "session \<Rightarrow> session" where
  "create_db_and_tables db = db"

subsection \<open>Queries\<close>

text \<open>\<^verbatim>\<open>select(User).where(User.username == username)\<close> ... \<^verbatim>\<open>.first()\<close>\<close>

definition first_by_username :: "string \<Rightarrow> session \<Rightarrow> user option" where
  "first_by_username u db = find (\<lambda>r. username r = u) (table db)"

text \<open>
  \<^verbatim>\<open>column.contains(query)\<close> is SQLAlchemy's \<^verbatim>\<open>column LIKE '%' || query || '%'\<close>.
  The query is pasted into the pattern as it is (no \<^verbatim>\<open>autoescape\<close>), so a
  \<^verbatim>\<open>%\<close> in it stands for any run of characters and a \<^verbatim>\<open>_\<close> for any one character;
  where the backslash is the escape character (\<open>esc\<close>), the pattern character after
  one stands for itself. Letters are folded in ASCII only (\<open>ci\<close>). A string is a list
  of \<open>char\<close>, one for each character, and a character counts as one byte in the
  length of a pattern.
\<close>

definition fold_case :: "char \<Rightarrow> char" where
  "fold_case c =
     (case map_of (zip ''ABCDEFGHIJKLMNOPQRSTUVWXYZ'' ''abcdefghijklmnopqrstuvwxyz'') c of
        None \<Rightarrow> c
      | Some l \<Rightarrow> l)"

definition like_eq :: "bool \<Rightarrow> char \<Rightarrow> char \<Rightarrow> bool" where
  "like_eq ci p c = (if ci then fold_case p = fold_case c else p = c)"

fun like :: "bool \<Rightarrow> bool \<Rightarrow> string \<Rightarrow> string \<Rightarrow> bool" where
  "like esc ci [] s = (s = [])"
| "like esc ci (p # ps) [] =
     (if esc \<and> p = CHR 0x5C then False
      else p = CHR ''%'' \<and> like esc ci ps [])"
| "like esc ci (p # ps) (c # cs) =
     (if esc \<and> p = CHR 0x5C
      then (case ps of [] \<Rightarrow> False | q # qs \<Rightarrow> like_eq ci q c \<and> like esc ci qs cs)
      else if p = CHR ''%'' then like esc ci ps (c # cs) \<or> like esc ci (p # ps) cs
      else if p = CHR ''_'' then like esc ci ps cs
      else like_eq ci p c \<and> like esc ci ps cs)"

text \<open>
  A pattern that ends in the middle of an escape (a backslash with nothing after it)
  is refused where the backslash escapes.
\<close>

fun dangling :: "bool \<Rightarrow> string \<Rightarrow> bool" where
  "dangling esc [] = False"
| "dangling esc [p] = (esc \<and> p = CHR 0x5C)"
| "dangling esc (p # q # ps) = (if esc \<and> p = CHR 0x5C then dangling esc ps else dangling esc (q # ps))"

text \<open>
  One evaluation of \<^verbatim>\<open>column LIKE '%' || query || '%'\<close> on a column value: the
  database refuses the pattern, or says whether the value matches.
\<close>

definition contains :: "backend \<Rightarrow> string \<Rightarrow> string \<Rightarrow> error + bool" where
  "contains b col q =
     (let pat = CHR ''%'' # q @ [CHR ''%'']
      in if like_limited b \<and> 50000 < length pat then Inl DatabaseError
         else if dangling (like_backslash b) pat then Inl DatabaseError
         else Inr (like (like_backslash b) (like_ci b) pat col))"

text \<open>
  \<^verbatim>\<open>(User.username.contains(query)) | (User.email.contains(query))\<close> on one row, the
  username first.
\<close>

definition matches :: "backend \<Rightarrow> string \<Rightarrow> user \<Rightarrow> error + bool" where
  "matches b q r =
     (case contains b (username r) q of
        Inl e \<Rightarrow> Inl e
      | Inr True \<Rightarrow> Inr True
      | Inr False \<Rightarrow> contains b (email r) q)"

text \<open>
  \<^verbatim>\<open>select(User).where(...)\<close> ... \<^verbatim>\<open>.all()\<close>: the condition is evaluated row by row,
  so a statement on an empty table evaluates it on nothing.
\<close>

fun select_where :: "(user \<Rightarrow> error + bool) \<Rightarrow> user list \<Rightarrow> error + user list" where
  "select_where cond [] = Inr []"
| "select_where cond (r # rs) =
     (case cond r of
        Inl e \<Rightarrow> Inl e
      | Inr keep \<Rightarrow>
          (case select_where cond rs of
             Inl e \<Rightarrow> Inl e
           | Inr users \<Rightarrow> Inr (if keep then r # users else users)))"

text \<open>
  \<^verbatim>\<open>select(User).offset(offset).limit(limit)\<close>. The two arguments are Python
  integers, of any size; the statement takes 64-bit signed ones.
\<close>

definition int64 :: "int \<Rightarrow> bool" where
  "int64 i \<longleftrightarrow> - 9223372036854775808 \<le> i \<and> i < 9223372036854775808"

definition window :: "backend \<Rightarrow> int \<Rightarrow> int \<Rightarrow> user list \<Rightarrow> error + user list" where
  "window b lim off t =
     (if \<not> (int64 lim \<and> int64 off)
      then Inl (if int64_bind b then OverflowError else DatabaseError)
      else if 0 \<le> lim \<and> 0 \<le> off then Inr (take (nat lim) (drop (nat off) t))
      else case neg_window b lim off t of
             None \<Rightarrow> Inl DatabaseError
           | Some users \<Rightarrow> Inr users)"

section \<open>The commands\<close>

definition initialize :: "store \<Rightarrow> outcome" where
  "initialize = with_session (\<lambda>db.
     let db = drop_all db;
         db = create_db_and_tables db;
         db = stage (Insert ''bob'' ''bob@mail.com'' ''bobpass'') db;
         (r, db) = db_commit db
     in case r of
          Inl e \<Rightarrow> (Inl e, db)
        | Inr _ \<Rightarrow> (Inr [Text ''Database Initialized''], db))"

definition get_user :: "string \<Rightarrow> store \<Rightarrow> outcome" where
  "get_user u = with_session (\<lambda>db.
     case first_by_username u db of
       None \<Rightarrow> (Inr [Text (u @ '' not found!'')], db)
     | Some usr \<Rightarrow> (Inr [Show usr], db))"

definition get_all_users :: "store \<Rightarrow> outcome" where
  "get_all_users = with_session (\<lambda>db.
     let all_users = table db in
     if all_users = [] then (Inr [Text ''No users found''], db)
     else (Inr (map Show all_users), db))"

text \<open>
  \<^verbatim>\<open>user.email = new_email\<close> marks the loaded row as changed: an update of that row
  by its key is staged (\<^verbatim>\<open>db.add(user)\<close> of a row the session already holds adds
  nothing). The commit stands outside any \<^verbatim>\<open>try\<close>.
\<close>

definition change_email :: "string \<Rightarrow> string \<Rightarrow> store \<Rightarrow> outcome" where
  "change_email u new_email = with_session (\<lambda>db.
     case first_by_username u db of
       None \<Rightarrow> (Inr [Text (u @ '' not found! Unable to update email.'')], db)
     | Some usr \<Rightarrow>
         (let db = stage (Update (user_id usr) new_email) db;
              (r, db) = db_commit db
          in (case r of
                Inl e \<Rightarrow> (Inl e, db)
              | Inr _ \<Rightarrow>
                  (Inr [Text (''Updated '' @ username usr @ [CHR 0x27] @ ''s email to '' @ new_email)],
                   db))))"

text \<open>
  The body of \<open>create_user\<close>, on the open session: \<^verbatim>\<open>except IntegrityError\<close> rolls
  back and prints; any other exception leaves the command.
\<close>

definition create_user_in :: "string \<Rightarrow> string \<Rightarrow> string \<Rightarrow> session \<Rightarrow> (error + line list) \<times> session" where
  "create_user_in u e p db0 =
     (let db = stage (Insert u e p) db0;
          (r, db) = db_commit db
      in case r of
           Inl IntegrityError \<Rightarrow>
             (let db = db_rollback db
              in (Inr [Text ''Username or email already taken!''], db))
         | Inl DatabaseError \<Rightarrow> (Inl DatabaseError, db)
         | Inl OverflowError \<Rightarrow> (Inl OverflowError, db)
         | Inr _ \<Rightarrow> (Inr [Show (new_row (table db0) u e p)], db))"

definition create_user :: "string \<Rightarrow> string \<Rightarrow> string \<Rightarrow> store \<Rightarrow> outcome" where
  "create_user u e p = with_session (create_user_in u e p)"

definition delete_user :: "string \<Rightarrow> store \<Rightarrow> outcome" where
  "delete_user u = with_session (\<lambda>db.
     case first_by_username u db of
       None \<Rightarrow> (Inr [Text (u @ '' not found! Unable to delete user.'')], db)
     | Some usr \<Rightarrow>
         (let db = stage (Delete (user_id usr)) db;
              (r, db) = db_commit db
          in (case r of
                Inl e \<Rightarrow> (Inl e, db)
              | Inr _ \<Rightarrow> (Inr [Text (u @ '' deleted'')], db))))"

definition search_users :: "backend \<Rightarrow> string \<Rightarrow> store \<Rightarrow> outcome" where
  "search_users b query = with_session (\<lambda>db.
     case select_where (matches b query) (table db) of
       Inl e \<Rightarrow> (Inl e, db)
     | Inr users \<Rightarrow>
         if users = []
         then (Inr [Text (''No users found matching '' @ [CHR 0x27] @ query @ [CHR 0x27])], db)
         else (Inr (map Show users), db))"

definition list_users :: "backend \<Rightarrow> int \<Rightarrow> int \<Rightarrow> store \<Rightarrow> outcome" where
  "list_users b limit offset = with_session (\<lambda>db.
     case window b limit offset (table db) of
       Inl e \<Rightarrow> (Inl e, db)
     | Inr users \<Rightarrow>
         if users = [] then (Inr [Text ''No users found.''], db)
         else (Inr (map Show users), db))"

text \<open>
  The command line: \<^verbatim>\<open>typer.Argument(10)\<close> and \<^verbatim>\<open>typer.Argument(0)\<close> are what
  \<open>list_users\<close> gets for an argument left out.
\<close>

datatype command =
  Initialize
| Get_User string
| Get_All_Users
| Change_Email string string
| Create_User string string string
| Delete_User string
| Search_Users string
| List_Users "int option" "int option"

fun cli :: "backend \<Rightarrow> command \<Rightarrow> store \<Rightarrow> outcome" where
  "cli b Initialize = initialize"
| "cli b (Get_User u) = get_user u"
| "cli b Get_All_Users = get_all_users"
| "cli b (Change_Email u e) = change_email u e"
| "cli b (Create_User u e p) = create_user u e p"
| "cli b (Delete_User u) = delete_user u"
| "cli b (Search_Users q) = search_users b q"
| "cli b (List_Users limit offset) =
     list_users b (case limit of None \<Rightarrow> 10 | Some l \<Rightarrow> l) (case offset of None \<Rightarrow> 0 | Some k \<Rightarrow> k)"

subsection \<open>The constraints of the table\<close>

text \<open>
  The primary key and the two unique columns: no two rows share a key, a username or
  an email.
\<close>

definition unique_rows :: "user list \<Rightarrow> bool" where
  "unique_rows t \<longleftrightarrow>
     distinct (map user_id t) \<and> distinct (map username t) \<and> distinct (map email t)"

subsection \<open>Substrings\<close>


subsection \<open>Sample rows and queries\<close>


definition mk_user :: "int \<Rightarrow> string \<Rightarrow> user" where
  "mk_user i n = \<lparr>user_id = i, username = n, email = n @ ''@x.com'', password = ''p''\<rparr>"

definition five_users :: store where
  "five_users = [mk_user 1 ''a'', mk_user 2 ''b'', mk_user 3 ''c'', mk_user 4 ''d'', mk_user 5 ''e'']"

definition two_users :: store where
  "two_users = [mk_user 1 ''a'', mk_user 2 ''b'']"

definition bob :: user where
  "bob = \<lparr>user_id = 1, username = ''bob'', email = ''bob@mail.com'', password = ''bobpass''\<rparr>"

section \<open>Lemmas on the store\<close>

lemmas session_defs =
  with_session_def get_session_def close_def stage_def db_commit_def db_rollback_def
  first_by_username_def drop_all_def create_db_and_tables_def

lemma find_SomeD: "find P xs = Some x \<Longrightarrow> x \<in> set xs \<and> P x"
  by (induction xs) (auto split: if_splits)

lemma distinct_map_eqD:
  "distinct (map f xs) \<Longrightarrow> x \<in> set xs \<Longrightarrow> y \<in> set xs \<Longrightarrow> f x = f y \<Longrightarrow> x = y"
  by (auto simp: distinct_map dest: inj_onD)

lemma find_unique:
  "distinct (map f xs) \<Longrightarrow> x \<in> set xs \<Longrightarrow> find (\<lambda>y. f y = f x) xs = Some x"
  by (induction xs) auto

lemma find_filter_neq: "find (\<lambda>y. f y = k) (filter (\<lambda>y. f y \<noteq> k) xs) = None"
  by (simp add: find_None_iff)

lemma length_filter_neq:
  "distinct (map f xs) \<Longrightarrow> x \<in> set xs \<Longrightarrow>
   Suc (length (filter (\<lambda>y. f y \<noteq> f x) xs)) = length xs"
proof (induction xs)
  case Nil
  then show ?case by simp
next
  case (Cons a xs)
  show ?case
  proof (cases "f a = f x")
    case True
    with Cons.prems have "f x \<notin> f ` set xs" by auto
    then have "\<forall>y \<in> set xs. f y \<noteq> f x" by (metis imageI)
    then have "filter (\<lambda>y. f y \<noteq> f x) xs = xs" by (simp add: filter_id_conv)
    with True show ?thesis by simp
  next
    case False
    with Cons show ?thesis by auto
  qed
qed

lemma fresh_id_gt: "r \<in> set t \<Longrightarrow> user_id r < fresh_id t"
  unfolding fresh_id_def by (induction t) auto

lemma fresh_id_notin: "fresh_id t \<notin> set (map user_id t)"
  using fresh_id_gt by fastforce

lemma update_keeps_distinct_email:
  assumes "distinct (map user_id t)" "distinct (map email t)"
    and "\<not> (\<exists>r \<in> set t. user_id r \<noteq> i \<and> email r = e)"
  shows "distinct (map email (map (\<lambda>r. if user_id r = i then r\<lparr>email := e\<rparr> else r) t))"
  using assms
proof (induction t)
  case Nil
  then show ?case by simp
next
  case (Cons a t)
  then show ?case by (auto simp: image_iff)
qed

lemma apply_write_unique:
  assumes "unique_rows t" "apply_write w t = Inr t'"
  shows "unique_rows t'"
proof (cases w)
  case (Insert u e p)
  with assms have no: "\<not> (\<exists>r \<in> set t. username r = u \<or> email r = e)"
    and t': "t' = t @ [new_row t u e p]"
    by (auto split: if_splits)
  from no have "u \<notin> set (map username t)" "e \<notin> set (map email t)" by auto
  with assms(1) fresh_id_notin[of t] show ?thesis
    by (simp add: unique_rows_def t' new_row_def)
next
  case (Update i e)
  with assms have no: "\<not> (\<exists>r \<in> set t. user_id r \<noteq> i \<and> email r = e)"
    and t': "t' = map (\<lambda>r. if user_id r = i then r\<lparr>email := e\<rparr> else r) t"
    by (auto split: if_splits)
  have ids: "map user_id t' = map user_id t" and names: "map username t' = map username t"
    by (simp_all add: t')
  from assms(1) no have "distinct (map email t')"
    unfolding t' unique_rows_def by (intro update_keeps_distinct_email) simp_all
  with assms(1) ids names show ?thesis by (simp add: unique_rows_def)
next
  case (Delete i)
  with assms have "t' = filter (\<lambda>r. user_id r \<noteq> i) t" by simp
  with assms(1) show ?thesis by (simp add: unique_rows_def distinct_map_filter)
qed

lemma flush_unique: "unique_rows t \<Longrightarrow> flush ws t = Inr t' \<Longrightarrow> unique_rows t'"
  by (induction ws arbitrary: t) (auto split: sum.splits dest: apply_write_unique)

lemma flush_error: "flush ws t = Inl e \<Longrightarrow> e = IntegrityError"
  by (induction ws arbitrary: t) (auto split: sum.splits if_splits elim: apply_write.elims)

section \<open>Lemmas on the commands\<close>

lemma commit_one:
  "db_commit (stage w (get_session s)) =
     (case apply_write w s of
        Inl e \<Rightarrow> (Inl e, \<lparr>table = s, pending = [w]\<rparr>)
      | Inr t \<Rightarrow> (Inr (), \<lparr>table = t, pending = []\<rparr>))"
  by (simp add: session_defs split: sum.splits)

lemma create_user_in_taken:
  assumes "\<exists>r \<in> set s. username r = u \<or> email r = e"
  shows "create_user_in u e p (get_session s) =
           (Inr [Text ''Username or email already taken!''], get_session s)"
  using assms by (simp add: create_user_in_def commit_one) (simp add: session_defs)

lemma create_user_taken:
  assumes "\<exists>r \<in> set s. username r = u \<or> email r = e"
  shows "create_user u e p s = (Inr [Text ''Username or email already taken!''], s)"
  by (simp add: create_user_def with_session_def create_user_in_taken[OF assms])
     (simp add: session_defs)

lemma create_user_free:
  assumes "\<not> (\<exists>r \<in> set s. username r = u \<or> email r = e)"
  shows "create_user u e p s = (Inr [Show (new_row s u e p)], s @ [new_row s u e p])"
  using assms
  by (simp add: create_user_def with_session_def create_user_in_def commit_one)
     (simp add: session_defs)

lemma change_email_taken:
  assumes "find (\<lambda>r. username r = u) s = Some usr"
    and "\<exists>r \<in> set s. user_id r \<noteq> user_id usr \<and> email r = e"
  shows "change_email u e s = (Inl IntegrityError, s)"
  using assms
  by (simp add: change_email_def with_session_def first_by_username_def commit_one[unfolded get_session_def] get_session_def close_def)
 
lemma change_email_free:
  assumes "find (\<lambda>r. username r = u) s = Some usr"
    and "\<not> (\<exists>r \<in> set s. user_id r \<noteq> user_id usr \<and> email r = e)"
  shows "change_email u e s =
     (Inr [Text (''Updated '' @ username usr @ [CHR 0x27] @ ''s email to '' @ e)],
      map (\<lambda>r. if user_id r = user_id usr then r\<lparr>email := e\<rparr> else r) s)"
  using assms
  by (simp add: change_email_def with_session_def first_by_username_def commit_one[unfolded get_session_def] get_session_def close_def)

lemma change_email_absent:
  assumes "find (\<lambda>r. username r = u) s = None"
  shows "change_email u e s = (Inr [Text (u @ '' not found! Unable to update email.'')], s)"
  using assms
  by (simp add: change_email_def with_session_def first_by_username_def get_session_def close_def)

lemma delete_user_present:
  assumes "find (\<lambda>r. username r = u) s = Some usr"
  shows "delete_user u s =
     (Inr [Text (u @ '' deleted'')], filter (\<lambda>r. user_id r \<noteq> user_id usr) s)"
  using assms
  by (simp add: delete_user_def with_session_def first_by_username_def commit_one[unfolded get_session_def] get_session_def close_def)

lemma delete_user_absent:
  assumes "find (\<lambda>r. username r = u) s = None"
  shows "delete_user u s = (Inr [Text (u @ '' not found! Unable to delete user.'')], s)"
  using assms
  by (simp add: delete_user_def with_session_def first_by_username_def get_session_def close_def)

lemma get_user_present:
  assumes "find (\<lambda>r. username r = u) s = Some usr"
  shows "get_user u s = (Inr [Show usr], s)"
  using assms
  by (simp add: get_user_def with_session_def first_by_username_def get_session_def close_def)

lemma get_user_None:
  assumes "find (\<lambda>r. username r = u) s = None"
  shows "get_user u s = (Inr [Text (u @ '' not found!'')], s)"
  using assms
  by (simp add: get_user_def with_session_def first_by_username_def get_session_def close_def)

lemma initialize_eq: "initialize s = (Inr [Text ''Database Initialized''], [bob])"
  by (simp add: initialize_def session_defs new_row_def fresh_id_def bob_def)

lemma snd_get_all_users: "snd (get_all_users s) = s"
  by (simp add: get_all_users_def session_defs)

lemma snd_search_users: "snd (search_users b q s) = s"
  by (simp add: search_users_def session_defs split: sum.splits)

lemma snd_list_users: "snd (list_users b l k s) = s"
  by (simp add: list_users_def session_defs split: sum.splits)

lemma found_by_username:
  assumes "unique_rows s" "r \<in> set s"
  shows "find (\<lambda>x. username x = username r) s = Some r"
  using assms find_unique[of username s r] by (simp add: unique_rows_def)

lemma same_id_iff:
  assumes "unique_rows s" "r \<in> set s" "x \<in> set s"
  shows "user_id x = user_id r \<longleftrightarrow> username x = username r"
  using assms distinct_map_eqD[of user_id s x r] distinct_map_eqD[of username s x r]
  by (auto simp: unique_rows_def)

lemma change_email_other_holds:
  assumes "unique_rows s" "u \<in> set (map username s)"
    and "\<exists>r \<in> set s. username r \<noteq> u \<and> email r = e"
  shows "change_email u e s = (Inl IntegrityError, s)"
proof -
  from assms(2) obtain usr where usr: "usr \<in> set s" "username usr = u" by auto
  then have f: "find (\<lambda>x. username x = u) s = Some usr"
    using found_by_username[OF assms(1)] by auto
  from assms(3) obtain r where r: "r \<in> set s" "username r \<noteq> u" "email r = e" by auto
  with usr have "user_id r \<noteq> user_id usr"
    using same_id_iff[OF assms(1) usr(1) r(1)] by simp
  with r have "\<exists>r \<in> set s. user_id r \<noteq> user_id usr \<and> email r = e" by auto
  with f show ?thesis by (rule change_email_taken)
qed

lemma change_email_unique: "unique_rows s \<Longrightarrow> unique_rows (snd (change_email u e s))"
proof (cases "find (\<lambda>r. username r = u) s")
  case None
  assume "unique_rows s"
  with None show ?thesis by (simp add: change_email_absent)
next
  case (Some usr)
  assume u: "unique_rows s"
  show ?thesis
  proof (cases "\<exists>r \<in> set s. user_id r \<noteq> user_id usr \<and> email r = e")
    case True
    with Some u show ?thesis by (simp add: change_email_taken)
  next
    case False
    then have "apply_write (Update (user_id usr) e) s =
        Inr (map (\<lambda>r. if user_id r = user_id usr then r\<lparr>email := e\<rparr> else r) s)"
      by simp
    from apply_write_unique[OF u this] show ?thesis
      using change_email_free[OF Some False] by simp
  qed
qed

lemma create_user_unique: "unique_rows s \<Longrightarrow> unique_rows (snd (create_user u e p s))"
proof (cases "\<exists>r \<in> set s. username r = u \<or> email r = e")
  case True
  assume "unique_rows s"
  with True show ?thesis by (simp add: create_user_taken)
next
  case False
  assume u: "unique_rows s"
  from False have "apply_write (Insert u e p) s = Inr (s @ [new_row s u e p])" by simp
  from apply_write_unique[OF u this] show ?thesis
    using create_user_free[OF False] by simp
qed

lemma delete_user_unique: "unique_rows s \<Longrightarrow> unique_rows (snd (delete_user u s))"
proof (cases "find (\<lambda>r. username r = u) s")
  case None
  assume "unique_rows s"
  with None show ?thesis by (simp add: delete_user_absent)
next
  case (Some usr)
  assume u: "unique_rows s"
  have "apply_write (Delete (user_id usr)) s = Inr (filter (\<lambda>r. user_id r \<noteq> user_id usr) s)"
    by simp
  from apply_write_unique[OF u this] show ?thesis
    using delete_user_present[OF Some] by simp
qed

lemma snd_get_user: "snd (get_user u s) = s"
  by (cases "find (\<lambda>r. username r = u) s") (simp_all add: get_user_None get_user_present)

lemma cli_unique: "unique_rows s \<Longrightarrow> unique_rows (snd (cli b c s))"
proof (cases c)
  case Initialize
  then show ?thesis by (simp add: initialize_eq unique_rows_def)
qed (simp_all add: snd_get_user snd_get_all_users snd_search_users snd_list_users
       change_email_unique create_user_unique delete_user_unique)

lemma find_map_keep:
  assumes "\<And>x. P (f x) = P x"
  shows "find P (map f xs) = map_option f (find P xs)"
  by (induction xs) (simp_all add: assms)

lemma select_where_filter:
  assumes "\<And>r. r \<in> set t \<Longrightarrow> cond r = Inr (f r)"
  shows "select_where cond t = Inr (filter f t)"
  using assms by (induction t) simp_all

lemma select_where_error:
  "select_where cond t = Inl e \<Longrightarrow> \<exists>r \<in> set t. cond r = Inl e"
  by (induction t) (auto split: sum.splits)

lemma search_users_filter:
  assumes "\<And>r. r \<in> set s \<Longrightarrow> matches b q r = Inr (f r)"
  shows "search_users b q s =
     (let users = filter f s
      in if users = []
         then (Inr [Text (''No users found matching '' @ [CHR 0x27] @ q @ [CHR 0x27])], s)
         else (Inr (map Show users), s))"
proof -
  have "select_where (matches b q) s = Inr (filter f s)"
    using assms by (rule select_where_filter)
  then show ?thesis by (simp add: search_users_def session_defs Let_def)
qed

lemma list_users_in_range:
  assumes "0 \<le> limit" "limit < 9223372036854775808" "0 \<le> offset" "offset < 9223372036854775808"
  shows "list_users b limit offset s =
     (let users = take (nat limit) (drop (nat offset) s)
      in if users = [] then (Inr [Text ''No users found.''], s)
         else (Inr (map Show users), s))"
  using assms by (simp add: list_users_def session_defs window_def int64_def Let_def)

section \<open>Lemmas on the pattern match\<close>

lemma like_percent_only: "like esc ci [CHR ''%''] s"
  by (induction s) auto

lemma like_percent:
  "like esc ci (CHR ''%'' # ps) s \<longleftrightarrow> (\<exists>xs ys. s = xs @ ys \<and> like esc ci ps ys)"
proof (induction s)
  case Nil
  then show ?case by simp
next
  case (Cons c cs)
  show ?case
  proof
    assume "like esc ci (CHR ''%'' # ps) (c # cs)"
    then consider "like esc ci ps (c # cs)" | "like esc ci (CHR ''%'' # ps) cs" by auto
    then show "\<exists>xs ys. c # cs = xs @ ys \<and> like esc ci ps ys"
    proof cases
      case 1
      then show ?thesis by (intro exI[of _ "[]"] exI[of _ "c # cs"]) simp
    next
      case 2
      then obtain xs ys where "cs = xs @ ys" "like esc ci ps ys" using Cons.IH by blast
      then show ?thesis by (intro exI[of _ "c # xs"] exI[of _ ys]) simp
    qed
  next
    assume "\<exists>xs ys. c # cs = xs @ ys \<and> like esc ci ps ys"
    then obtain xs ys where *: "c # cs = xs @ ys" "like esc ci ps ys" by blast
    show "like esc ci (CHR ''%'' # ps) (c # cs)"
    proof (cases xs)
      case Nil
      with * have "ys = c # cs" by simp
      with * show ?thesis by simp
    next
      case (Cons x xs')
      with * have "cs = xs' @ ys" by simp
      with * Cons.IH have "like esc ci (CHR ''%'' # ps) cs" by blast
      then show ?thesis by simp
    qed
  qed
qed







lemma contains_error: "contains b col q = Inl e \<Longrightarrow> e = DatabaseError"
  by (auto simp: contains_def Let_def split: if_splits)

lemma matches_error: "matches b q r = Inl e \<Longrightarrow> e = DatabaseError"
  by (auto simp: matches_def dest: contains_error split: sum.splits bool.splits)

lemma search_users_error: "fst (search_users b q s) = Inl e \<Longrightarrow> e = DatabaseError"
  by (auto simp: search_users_def session_defs split: sum.splits if_splits
           dest!: select_where_error dest: matches_error)



lemma contains_empty: "contains b col [] = Inr True"
proof -
  have "col = [] @ col" by simp
  then have "\<exists>xs ys. col = xs @ ys" by blast
  then show ?thesis by (simp add: contains_def like_percent like_percent_only)
qed

lemma matches_empty: "matches b [] r = Inr True"
  by (simp add: matches_def contains_empty)

section \<open>Properties\<close>

text \<open>
  C9. For every store and every username \<open>u\<close> that no row has, \<open>get_user u\<close> prints the
  not-found line, raises nothing, and leaves the store as it was.
\<close>

theorem get_user_absent:
  assumes "u \<notin> set (map username s)"
  shows "get_user u s = (Inr [Text (u @ '' not found!'')], s)"
proof -
  have "find (\<lambda>r. username r = u) s = None"
    using assms by (auto simp: find_None_iff)
  then show ?thesis
    by (simp add: get_user_def with_session_def first_by_username_def get_session_def close_def)
qed

theorem get_user_absent_witness:
  "''zed'' \<notin> set (map username five_users)
   \<and> get_user ''zed'' five_users = (Inr [Text ''zed not found!''], five_users)"
proof -
  have h: "''zed'' \<notin> set (map username five_users)"
    by (simp add: five_users_def mk_user_def)
  show ?thesis
    using h get_user_absent[OF h] by simp
qed

text \<open>
  C1. When some row already has the username \<open>u\<close> or the email \<open>e\<close>,
  \<open>create_user u e p\<close> prints the conflict line and leaves the store exactly as it
  was: the commit raises with the insert still staged and the table untouched, and
  the handler's rollback drops the staged insert before the handle closes.
\<close>

theorem create_user_conflict_unchanged:
  assumes "\<exists>r \<in> set s. username r = u \<or> email r = e"
  shows "create_user u e p s = (Inr [Text ''Username or email already taken!''], s)
       \<and> db_commit (stage (Insert u e p) (get_session s)) =
           (Inl IntegrityError, \<lparr>table = s, pending = [Insert u e p]\<rparr>)
       \<and> create_user_in u e p (get_session s) =
           (Inr [Text ''Username or email already taken!''], \<lparr>table = s, pending = []\<rparr>)"
proof -
  have "db_commit (stage (Insert u e p) (get_session s)) =
          (Inl IntegrityError, \<lparr>table = s, pending = [Insert u e p]\<rparr>)"
    using assms by (simp add: commit_one)
  moreover have "create_user_in u e p (get_session s) =
          (Inr [Text ''Username or email already taken!''], \<lparr>table = s, pending = []\<rparr>)"
    using create_user_in_taken[OF assms] by (simp add: get_session_def)
  ultimately show ?thesis
    using create_user_taken[OF assms] by simp
qed

theorem create_user_conflict_unchanged_witness:
  "(\<exists>r \<in> set (snd (create_user ''a'' ''a@x.com'' ''p'' [])). username r = ''a'' \<or> email r = ''b@x.com'')
   \<and> snd (create_user ''a'' ''a@x.com'' ''p'' []) = [mk_user 1 ''a'']
   \<and> create_user ''a'' ''b@x.com'' ''q'' [mk_user 1 ''a''] =
        (Inr [Text ''Username or email already taken!''], [mk_user 1 ''a''])"
proof -
  have s1: "snd (create_user ''a'' ''a@x.com'' ''p'' []) = [mk_user 1 ''a'']"
    by (simp add: create_user_free new_row_def fresh_id_def mk_user_def)
  have h: "\<exists>r \<in> set [mk_user 1 ''a'']. username r = ''a'' \<or> email r = ''b@x.com''"
    by (simp add: mk_user_def)
  show ?thesis
    using create_user_conflict_unchanged[OF h, of "''q''"] h s1 by simp
qed

text \<open>
  C5. Every command takes a table whose keys, usernames and emails are each unique to
  a table of the same kind. A \<open>create_user\<close> whose username or email a row already
  has ends with the conflict line and the store unchanged; a \<open>change_email\<close> to the
  email a row of another user holds is refused by the store, which stays unchanged.
\<close>

theorem unique_rows_preserved:
  assumes "unique_rows s"
  shows "unique_rows (snd (cli b c s))
       \<and> ((\<exists>r \<in> set s. username r = u \<or> email r = e) \<longrightarrow>
            create_user u e p s = (Inr [Text ''Username or email already taken!''], s))
       \<and> (u' \<in> set (map username s) \<and> (\<exists>r \<in> set s. username r \<noteq> u' \<and> email r = e') \<longrightarrow>
            change_email u' e' s = (Inl IntegrityError, s))"
  using assms cli_unique[of s b c] create_user_taken[of s u e p]
    change_email_other_holds[of s u' e']
  by blast

theorem unique_rows_preserved_witness:
  "unique_rows two_users
   \<and> unique_rows (snd (cli sqlite (Create_User ''c'' ''c@x.com'' ''p'') two_users))
   \<and> snd (cli sqlite (Create_User ''c'' ''c@x.com'' ''p'') two_users) = two_users @ [mk_user 3 ''c'']
   \<and> (\<exists>r \<in> set two_users. username r = ''c'' \<or> email r = ''a@x.com'')
   \<and> create_user ''c'' ''a@x.com'' ''p'' two_users =
        (Inr [Text ''Username or email already taken!''], two_users)
   \<and> ''a'' \<in> set (map username two_users)
   \<and> (\<exists>r \<in> set two_users. username r \<noteq> ''a'' \<and> email r = ''b@x.com'')
   \<and> change_email ''a'' ''b@x.com'' two_users = (Inl IntegrityError, two_users)"
proof -
  have h: "unique_rows two_users"
    by (simp add: unique_rows_def two_users_def mk_user_def)
  have h1: "\<exists>r \<in> set two_users. username r = ''c'' \<or> email r = ''a@x.com''"
    by (simp add: two_users_def mk_user_def)
  have h2: "''a'' \<in> set (map username two_users)"
    by (simp add: two_users_def mk_user_def)
  have h3: "\<exists>r \<in> set two_users. username r \<noteq> ''a'' \<and> email r = ''b@x.com''"
    by (simp add: two_users_def mk_user_def)
  have new: "snd (cli sqlite (Create_User ''c'' ''c@x.com'' ''p'') two_users) = two_users @ [mk_user 3 ''c'']"
    by (simp add: create_user_free two_users_def mk_user_def new_row_def fresh_id_def)
  from unique_rows_preserved[OF h, of sqlite "Create_User ''c'' ''c@x.com'' ''p''"
      "''c''" "''a@x.com''" "''p''" "''a''" "''b@x.com''"]
  show ?thesis using h h1 h2 h3 new by blast
qed

text \<open>
  C6. Whatever the store held, after \<open>initialize\<close> it holds exactly one row: username
  \<open>bob\<close>, email \<open>bob@mail.com\<close>, password \<open>bobpass\<close>; the rows it held are gone.
\<close>

theorem initialize_one_bob:
  "initialize s =
     (Inr [Text ''Database Initialized''],
      [\<lparr>user_id = 1, username = ''bob'', email = ''bob@mail.com'', password = ''bobpass''\<rparr>])"
  using initialize_eq[of s] by (simp add: bob_def)

text \<open>
  C7. \<open>create_user\<close> never ends with an exception: on a conflict its handler leaves the
  session rolled back and prints the fixed line. \<open>change_email\<close> to an email that a row
  of another user holds ends with \<open>IntegrityError\<close>, and it is the only command an
  \<open>IntegrityError\<close> leaves.
\<close>

theorem only_create_user_handles_conflict:
  "(\<exists>out. fst (create_user u e p s) = Inr out)
   \<and> ((\<exists>r \<in> set s. username r = u \<or> email r = e) \<longrightarrow>
        create_user_in u e p (get_session s) =
          (Inr [Text ''Username or email already taken!''], db_rollback (stage (Insert u e p) (get_session s))))
   \<and> (unique_rows s \<and> u' \<in> set (map username s)
        \<and> (\<exists>r \<in> set s. username r \<noteq> u' \<and> email r = e') \<longrightarrow>
        change_email u' e' s = (Inl IntegrityError, s))
   \<and> (fst (cli b c s) = Inl IntegrityError \<longrightarrow> (\<exists>v w. c = Change_Email v w))"
proof -
  have 1: "\<exists>out. fst (create_user u e p s) = Inr out"
    by (cases "\<exists>r \<in> set s. username r = u \<or> email r = e")
       (simp_all add: create_user_taken create_user_free)
  have 2: "(\<exists>r \<in> set s. username r = u \<or> email r = e) \<longrightarrow>
        create_user_in u e p (get_session s) =
          (Inr [Text ''Username or email already taken!''], db_rollback (stage (Insert u e p) (get_session s)))"
    by (simp add: create_user_in_taken) (simp add: session_defs)
  have 3: "unique_rows s \<and> u' \<in> set (map username s)
        \<and> (\<exists>r \<in> set s. username r \<noteq> u' \<and> email r = e') \<longrightarrow>
        change_email u' e' s = (Inl IntegrityError, s)"
    using change_email_other_holds[of s u' e'] by blast
  have 4: "fst (cli b c s) = Inl IntegrityError \<longrightarrow> (\<exists>v w. c = Change_Email v w)"
  proof (cases c)
    case Initialize
    then show ?thesis by (simp add: initialize_eq)
  next
    case (Get_User v)
    then show ?thesis
      by (cases "find (\<lambda>r. username r = v) s") (simp_all add: get_user_None get_user_present)
  next
    case Get_All_Users
    then show ?thesis by (simp add: get_all_users_def session_defs)
  next
    case (Change_Email v w)
    then show ?thesis by simp
  next
    case (Create_User v w x)
    then show ?thesis
      by (cases "\<exists>r \<in> set s. username r = v \<or> email r = w")
         (simp_all add: create_user_taken create_user_free)
  next
    case (Delete_User v)
    then show ?thesis
      by (cases "find (\<lambda>r. username r = v) s") (simp_all add: delete_user_absent delete_user_present)
  next
    case (Search_Users q)
    then show ?thesis using search_users_error[of b q s IntegrityError] by auto
  next
    case (List_Users l k)
    then show ?thesis
      by (auto simp: list_users_def session_defs window_def split: sum.splits option.splits if_splits)
  qed
  from 1 2 3 4 show ?thesis by blast
qed

theorem only_create_user_handles_conflict_witness:
  "fst (create_user ''a'' ''z@x.com'' ''p'' two_users) = Inr [Text ''Username or email already taken!'']
   \<and> create_user_in ''a'' ''z@x.com'' ''p'' (get_session two_users) =
        (Inr [Text ''Username or email already taken!''], \<lparr>table = two_users, pending = []\<rparr>)
   \<and> unique_rows two_users
   \<and> change_email ''a'' ''b@x.com'' two_users = (Inl IntegrityError, two_users)
   \<and> fst (cli sqlite (Change_Email ''a'' ''b@x.com'') two_users) = Inl IntegrityError"
proof -
  have h: "unique_rows two_users"
    by (simp add: unique_rows_def two_users_def mk_user_def)
  have h1: "\<exists>r \<in> set two_users. username r = ''a'' \<or> email r = ''z@x.com''"
    by (simp add: two_users_def mk_user_def)
  have h2: "''a'' \<in> set (map username two_users)"
    by (simp add: two_users_def mk_user_def)
  have h3: "\<exists>r \<in> set two_users. username r \<noteq> ''a'' \<and> email r = ''b@x.com''"
    by (simp add: two_users_def mk_user_def)
  have rb: "db_rollback (stage (Insert ''a'' ''z@x.com'' ''p'') (get_session two_users)) =
      \<lparr>table = two_users, pending = []\<rparr>"
    by (simp add: session_defs)
  have out: "fst (create_user ''a'' ''z@x.com'' ''p'' two_users) = Inr [Text ''Username or email already taken!'']"
    using h1 by (simp add: create_user_taken)
  from only_create_user_handles_conflict[of "''a''" "''z@x.com''" "''p''" two_users "''a''" "''b@x.com''"
      sqlite "Change_Email ''a'' ''b@x.com''"]
  have "create_user_in ''a'' ''z@x.com'' ''p'' (get_session two_users) =
        (Inr [Text ''Username or email already taken!''], \<lparr>table = two_users, pending = []\<rparr>)"
    and "change_email ''a'' ''b@x.com'' two_users = (Inl IntegrityError, two_users)"
    using h h1 h2 h3 rb by auto
  then show ?thesis using h out by simp
qed

text \<open>
  C4, amended. On a store that keeps its constraints and has a row \<open>r\<close> named \<open>u\<close>,
  when no row of another user holds \<open>e\<close>, \<open>change_email u e\<close> gives \<open>r\<close> the email \<open>e\<close> and
  leaves its key, username and password and every other row as they were, in the same
  order; \<open>get_user u\<close> then shows \<open>r\<close> with the email \<open>e\<close>.
\<close>

theorem change_email_sets_email:
  assumes "unique_rows s" "r \<in> set s" "username r = u"
    and "\<forall>x \<in> set s. email x = e \<longrightarrow> username x = u"
  shows "change_email u e s =
           (Inr [Text (''Updated '' @ u @ [CHR 0x27] @ ''s email to '' @ e)],
            map (\<lambda>x. if username x = u then x\<lparr>email := e\<rparr> else x) s)
       \<and> get_user u (snd (change_email u e s)) =
           (Inr [Show (r\<lparr>email := e\<rparr>)], snd (change_email u e s))"
proof -
  let ?f = "\<lambda>x. if username x = u then x\<lparr>email := e\<rparr> else x"
  have f: "find (\<lambda>x. username x = u) s = Some r"
    using found_by_username[OF assms(1,2)] assms(3) by simp
  have ids: "user_id x = user_id r \<longleftrightarrow> username x = u" if "x \<in> set s" for x
    using same_id_iff[OF assms(1,2) that] assms(3) by simp
  have free: "\<not> (\<exists>x \<in> set s. user_id x \<noteq> user_id r \<and> email x = e)"
    using assms(4) ids by blast
  have "map (\<lambda>x. if user_id x = user_id r then x\<lparr>email := e\<rparr> else x) s = map ?f s"
    by (rule map_cong) (simp_all add: ids)
  with change_email_free[OF f free] assms(3)
  have ch: "change_email u e s =
      (Inr [Text (''Updated '' @ u @ [CHR 0x27] @ ''s email to '' @ e)], map ?f s)"
    by simp
  have "find (\<lambda>x. username x = u) (map ?f s) = map_option ?f (find (\<lambda>x. username x = u) s)"
    by (rule find_map_keep) simp
  with f assms(3) have "find (\<lambda>x. username x = u) (map ?f s) = Some (r\<lparr>email := e\<rparr>)"
    by simp
  then have "get_user u (map ?f s) = (Inr [Show (r\<lparr>email := e\<rparr>)], map ?f s)"
    by (rule get_user_present)
  with ch show ?thesis by simp
qed

theorem change_email_sets_email_witness:
  "unique_rows two_users \<and> mk_user 1 ''a'' \<in> set two_users
   \<and> change_email ''a'' ''new@x.com'' two_users =
       (Inr [Text ''Updated a's email to new@x.com''],
        [(mk_user 1 ''a'')\<lparr>email := ''new@x.com''\<rparr>, mk_user 2 ''b''])
   \<and> get_user ''a'' (snd (change_email ''a'' ''new@x.com'' two_users)) =
       (Inr [Show \<lparr>user_id = 1, username = ''a'', email = ''new@x.com'', password = ''p''\<rparr>],
        [(mk_user 1 ''a'')\<lparr>email := ''new@x.com''\<rparr>, mk_user 2 ''b''])"
proof -
  have h1: "unique_rows two_users"
    by (simp add: unique_rows_def two_users_def mk_user_def)
  have h2: "mk_user 1 ''a'' \<in> set two_users"
    by (simp add: two_users_def)
  have h3: "username (mk_user 1 ''a'') = ''a''"
    by (simp add: mk_user_def)
  have h4: "\<forall>x \<in> set two_users. email x = ''new@x.com'' \<longrightarrow> username x = ''a''"
    by (simp add: two_users_def mk_user_def)
  have m: "map (\<lambda>x. if username x = ''a'' then x\<lparr>email := ''new@x.com''\<rparr> else x) two_users =
      [(mk_user 1 ''a'')\<lparr>email := ''new@x.com''\<rparr>, mk_user 2 ''b'']"
    by (simp add: two_users_def mk_user_def)
  have r: "(mk_user 1 ''a'')\<lparr>email := ''new@x.com''\<rparr> =
      \<lparr>user_id = 1, username = ''a'', email = ''new@x.com'', password = ''p''\<rparr>"
    by (simp add: mk_user_def)
  note t = change_email_sets_email[OF h1 h2 h3 h4]
  from t[THEN conjunct1]
  have c: "change_email ''a'' ''new@x.com'' two_users =
       (Inr [Text ''Updated a's email to new@x.com''],
        [(mk_user 1 ''a'')\<lparr>email := ''new@x.com''\<rparr>, mk_user 2 ''b''])"
    unfolding m by simp
  note g = t[THEN conjunct2]
  from g have "get_user ''a'' (snd (change_email ''a'' ''new@x.com'' two_users)) =
       (Inr [Show \<lparr>user_id = 1, username = ''a'', email = ''new@x.com'', password = ''p''\<rparr>],
        [(mk_user 1 ''a'')\<lparr>email := ''new@x.com''\<rparr>, mk_user 2 ''b''])"
    by (simp only: c snd_conv r)
  with h1 h2 c show ?thesis by blast
qed

theorem change_email_conflict_counterexample:
  "unique_rows two_users
   \<and> ''a'' \<in> set (map username two_users)
   \<and> change_email ''a'' ''b@x.com'' two_users = (Inl IntegrityError, two_users)
   \<and> get_user ''a'' (snd (change_email ''a'' ''b@x.com'' two_users)) =
       (Inr [Show \<lparr>user_id = 1, username = ''a'', email = ''a@x.com'', password = ''p''\<rparr>],
        two_users)"
proof -
  have ch: "change_email ''a'' ''b@x.com'' two_users = (Inl IntegrityError, two_users)"
    by (rule change_email_taken[where usr = "mk_user 1 ''a''"])
       (simp_all add: two_users_def mk_user_def)
  have "get_user ''a'' two_users = (Inr [Show (mk_user 1 ''a'')], two_users)"
    by (rule get_user_present) (simp add: two_users_def mk_user_def)
  with ch show ?thesis
    by (simp add: unique_rows_def two_users_def mk_user_def)
qed

text \<open>
  C8. On a store that keeps its constraints and has a row named \<open>u\<close>, \<open>delete_user u\<close>
  commits the table without that one row, the rows of other usernames unchanged and in
  order, and \<open>get_user u\<close> then prints the not-found line.
\<close>

theorem delete_user_removes_row:
  assumes "unique_rows s" "u \<in> set (map username s)"
  shows "delete_user u s = (Inr [Text (u @ '' deleted'')], filter (\<lambda>r. username r \<noteq> u) s)
       \<and> Suc (length (snd (delete_user u s))) = length s
       \<and> get_user u (snd (delete_user u s)) =
           (Inr [Text (u @ '' not found!'')], snd (delete_user u s))"
proof -
  from assms(2) obtain r where r: "r \<in> set s" "username r = u" by auto
  have f: "find (\<lambda>x. username x = u) s = Some r"
    using found_by_username[OF assms(1) r(1)] r(2) by simp
  have "filter (\<lambda>x. user_id x \<noteq> user_id r) s = filter (\<lambda>x. username x \<noteq> u) s"
    by (rule filter_cong) (simp_all add: same_id_iff[OF assms(1) r(1)] r(2))
  with delete_user_present[OF f]
  have d: "delete_user u s = (Inr [Text (u @ '' deleted'')], filter (\<lambda>x. username x \<noteq> u) s)"
    by simp
  have len: "Suc (length (filter (\<lambda>x. username x \<noteq> u) s)) = length s"
    using length_filter_neq[of username s r] assms(1) r by (simp add: unique_rows_def)
  have "get_user u (filter (\<lambda>x. username x \<noteq> u) s) =
      (Inr [Text (u @ '' not found!'')], filter (\<lambda>x. username x \<noteq> u) s)"
    by (rule get_user_None) (rule find_filter_neq)
  with d len show ?thesis by simp
qed

theorem delete_user_removes_row_witness:
  "unique_rows two_users \<and> ''a'' \<in> set (map username two_users)
   \<and> delete_user ''a'' two_users = (Inr [Text ''a deleted''], [mk_user 2 ''b''])
   \<and> get_user ''a'' (snd (delete_user ''a'' two_users)) =
       (Inr [Text ''a not found!''], [mk_user 2 ''b''])"
proof -
  have h1: "unique_rows two_users"
    by (simp add: unique_rows_def two_users_def mk_user_def)
  have h2: "''a'' \<in> set (map username two_users)"
    by (simp add: two_users_def mk_user_def)
  have m: "filter (\<lambda>r. username r \<noteq> ''a'') two_users = [mk_user 2 ''b'']"
    by (simp add: two_users_def mk_user_def)
  note t = delete_user_removes_row[OF h1 h2]
  from t[THEN conjunct1]
  have d: "delete_user ''a'' two_users = (Inr [Text ''a deleted''], [mk_user 2 ''b''])"
    unfolding m by simp
  from t[THEN conjunct2, THEN conjunct2]
  have g: "get_user ''a'' (snd (delete_user ''a'' two_users)) =
       (Inr [Text ''a not found!''], snd (delete_user ''a'' two_users))"
    by simp
  from g have "get_user ''a'' (snd (delete_user ''a'' two_users)) =
       (Inr [Text ''a not found!''], [mk_user 2 ''b''])"
    by (simp only: d snd_conv)
  with h1 h2 d show ?thesis by blast
qed

text \<open>
  C3, amended. For a limit and an offset that are not negative and fit a 64-bit signed
  integer, \<open>list_users\<close> prints the rows left after skipping the first \<open>offset\<close> rows
  of the table, cut to the first \<open>limit\<close> of them, in table order; on five rows,
  limit 2 and offset 1 give the second and the third; an argument left out on the
  command line is 10 for the limit and 0 for the offset.
\<close>

theorem list_users_window:
  assumes "0 \<le> limit" "limit < 9223372036854775808"
    "0 \<le> offset" "offset < 9223372036854775808"
  shows "list_users b limit offset s =
           (let users = take (nat limit) (drop (nat offset) s)
            in if users = [] then (Inr [Text ''No users found.''], s)
               else (Inr (map Show users), s))
       \<and> (length s = 5 \<longrightarrow> list_users b 2 1 s = (Inr [Show (s ! 1), Show (s ! 2)], s))
       \<and> cli b (List_Users None None) s = list_users b 10 0 s
       \<and> cli b (List_Users (Some limit) None) s = list_users b limit 0 s
       \<and> cli b (List_Users (Some limit) (Some offset)) s = list_users b limit offset s"
proof -
  have five: "list_users b 2 1 s = (Inr [Show (s ! 1), Show (s ! 2)], s)" if "length s = 5"
  proof -
    from that have "\<exists>x1 x2 x3 x4 x5. s = [x1, x2, x3, x4, x5]"
      by (auto simp: eval_nat_numeral length_Suc_conv)
    then obtain x1 x2 x3 x4 x5 where "s = [x1, x2, x3, x4, x5]" by blast
    then show ?thesis by (simp add: list_users_in_range)
  qed
  with list_users_in_range[OF assms] show ?thesis by simp
qed

theorem list_users_window_witness:
  "(0::int) \<le> 2 \<and> (2::int) < 9223372036854775808 \<and> (0::int) \<le> 1 \<and> (1::int) < 9223372036854775808
   \<and> length five_users = 5
   \<and> list_users sqlite 2 1 five_users = (Inr [Show (mk_user 2 ''b''), Show (mk_user 3 ''c'')], five_users)
   \<and> list_users postgresql 2 1 five_users = (Inr [Show (mk_user 2 ''b''), Show (mk_user 3 ''c'')], five_users)
   \<and> cli sqlite (List_Users None None) five_users = (Inr (map Show five_users), five_users)"
proof -
  have h1: "(0::int) \<le> 2" and h2: "(2::int) < 9223372036854775808"
    and h3: "(0::int) \<le> 1" and h4: "(1::int) < 9223372036854775808" by simp_all
  have h5: "length five_users = 5" by (simp add: five_users_def)
  have all: "list_users sqlite 10 0 five_users = (Inr (map Show five_users), five_users)"
    by (simp add: list_users_in_range five_users_def)
  from list_users_window[OF h1 h2 h3 h4, of sqlite five_users]
    list_users_window[OF h1 h2 h3 h4, of postgresql five_users]
  show ?thesis using h5 all by (simp add: five_users_def)
qed

text \<open>
  C3 as stated fails outside that range. The arguments are any two integers: with
  limit -1 SQLite prints all five rows, which is not a window of at most -1 rows, and
  PostgreSQL refuses the statement, as it does offset -1; with a limit or an offset of
  \<open>2^63\<close> the sqlite3 driver raises \<^verbatim>\<open>OverflowError\<close> and nothing is printed.
\<close>

theorem list_users_negative_limit_counterexample:
  "list_users sqlite (- 1) 0 five_users = (Inr (map Show five_users), five_users)
   \<and> length five_users = 5
   \<and> \<not> int (length five_users) \<le> - 1
   \<and> list_users postgresql (- 1) 0 five_users = (Inl DatabaseError, five_users)
   \<and> list_users postgresql 2 (- 1) five_users = (Inl DatabaseError, five_users)
   \<and> list_users sqlite 9223372036854775808 0 five_users = (Inl OverflowError, five_users)
   \<and> list_users sqlite 2 9223372036854775808 five_users = (Inl OverflowError, five_users)
   \<and> cli sqlite (List_Users (Some (- 1)) None) five_users = (Inr (map Show five_users), five_users)"
  by (simp add: list_users_def session_defs window_def int64_def sqlite_def postgresql_def
        five_users_def)

text \<open>
  C10. With the empty query every row matches: \<open>search_users\<close> prints all rows of a
  store that has some, and the no-match line only on the empty store.
\<close>

theorem search_users_empty_query:
  "search_users b [] s =
     (if s = [] then (Inr [Text (''No users found matching '' @ [CHR 0x27, CHR 0x27])], s)
      else (Inr (map Show s), s))"
proof -
  have "search_users b [] s =
     (let users = filter (\<lambda>r. True) s
      in if users = []
         then (Inr [Text (''No users found matching '' @ [CHR 0x27] @ [] @ [CHR 0x27])], s)
         else (Inr (map Show users), s))"
    by (rule search_users_filter) (rule matches_empty)
  then show ?thesis by simp
qed




end
